theory Spec2Isabelle
  imports Main
begin

section \<open>Table extraction: data model\<close>

text \<open>
  The module \<^verbatim>\<open>table_extraction.py\<close> finds rectangular tables in a pandas DataFrame.
  A DataFrame is modelled as a list of rows of optional cells (\<open>None\<close> is a missing
  value, the cells for which \<^verbatim>\<open>notna\<close> is false); a boolean numpy array as a list of
  rows of booleans. Python integers are \<open>int\<close>; loop indices produced by \<^verbatim>\<open>range\<close>
  from zero are \<open>nat\<close>.
\<close>

datatype error = ValueError | TypeError | IndexError

type_synonym 'a frame = "'a option list list"

text \<open>
  A numpy array carries its dtype; the range finder checks it. Only these two dtypes
  occur in the module and its tests.
\<close>

datatype ndarray = BoolArray "bool list list" | IntArray "int list list"

text \<open>
  \<^verbatim>\<open>array.shape\<close>. With no rows the column count of the model is 0 (a DataFrame may
  have columns and no rows; every loop over the rows is empty then, whatever the column count).
\<close>

definition shape :: "'a list list \<Rightarrow> nat \<times> nat" where
  "shape a = (length a, (case a of [] \<Rightarrow> 0 | r # _ \<Rightarrow> length r))"

text \<open>Arrays and DataFrames are rectangular: every row has the width of the shape.\<close>

definition rectangular :: "'a list list \<Rightarrow> bool" where
  "rectangular a = list_all (\<lambda>r. length r = snd (shape a)) a"

text \<open>\<^verbatim>\<open>array[row, col]\<close> for indices that are not negative: out of range raises.\<close>

definition item :: "'a list list \<Rightarrow> nat \<Rightarrow> nat \<Rightarrow> error + 'a" where
  "item a row col =
     (if row < length a \<and> col < length (a ! row) then Inr (a ! row ! col) else Inl IndexError)"

text \<open>\<^verbatim>\<open>array[row]\<close>, the first index of \<^verbatim>\<open>array[row, start:stop]\<close>.\<close>

definition row_at :: "'a list list \<Rightarrow> nat \<Rightarrow> error + 'a list" where
  "row_at a row = (if row < length a then Inr (a ! row) else Inl IndexError)"

text \<open>
  A Python slice \<^verbatim>\<open>start:stop\<close> over a sequence of length \<open>n\<close> never raises: a negative
  bound counts from the end, and both bounds are clamped to \<open>0..n\<close>
  (\<^verbatim>\<open>slice(start, stop).indices(n)\<close>). The slice is empty when the clamped stop is not
  above the clamped start.
\<close>

definition slice_bound :: "int \<Rightarrow> nat \<Rightarrow> nat" where
  "slice_bound i n = (if i < 0 then nat (max (i + int n) 0) else min (nat i) n)"

definition in_slice :: "int \<Rightarrow> int \<Rightarrow> nat \<Rightarrow> nat \<Rightarrow> bool" where
  "in_slice start stop n i = (slice_bound start n \<le> i \<and> i < slice_bound stop n)"

definition py_slice :: "int \<Rightarrow> int \<Rightarrow> 'a list \<Rightarrow> 'a list" where
  "py_slice start stop xs =
     (let lo = slice_bound start (length xs); hi = slice_bound stop (length xs)
      in take (hi - lo) (drop lo xs))"

subsection \<open>TableRange\<close>

record table_range =
  start_row :: int
  start_col :: int
  stop_row :: int
  stop_col :: int

text \<open>
  \<^verbatim>\<open>TableRange.__init__\<close>: the only check is that both positions have length two; the
  four coordinates are stored as given.
\<close>

definition TableRange :: "int list \<Rightarrow> int list \<Rightarrow> error + table_range" where
  "TableRange p q =
     (if length p \<noteq> 2 \<or> length q \<noteq> 2 then Inl ValueError
      else Inr \<lparr>start_row = p ! 0, start_col = p ! 1, stop_row = q ! 0, stop_col = q ! 1\<rparr>)"


definition start_pos :: "table_range \<Rightarrow> int \<times> int" where
  "start_pos t = (start_row t, start_col t)"

definition stop_pos :: "table_range \<Rightarrow> int \<times> int" where
  "stop_pos t = (stop_row t, stop_col t)"

text \<open>
  \<^verbatim>\<open>fill_inplace\<close>: \<^verbatim>\<open>array[start_row:stop_row, start_col:stop_col] = value\<close>. The array
  is mutated in place; the model returns the array after the assignment.
\<close>

definition fill_row :: "table_range \<Rightarrow> 'a list \<Rightarrow> 'a \<Rightarrow> 'a list" where
  "fill_row t xs v =
     map (\<lambda>j. if in_slice (start_col t) (stop_col t) (length xs) j then v else xs ! j)
       [0..<length xs]"

definition fill_inplace :: "table_range \<Rightarrow> 'a list list \<Rightarrow> 'a \<Rightarrow> 'a list list" where
  "fill_inplace t a v =
     map (\<lambda>i. if in_slice (start_row t) (stop_row t) (length a) i then fill_row t (a ! i) v
               else a ! i)
       [0..<length a]"

text \<open>
  \<^verbatim>\<open>to_dataframe\<close>: \<^verbatim>\<open>df.iloc[start_row:stop_row, start_col:stop_col]\<close>. Positional
  slicing clamps like a Python slice; the method has no bounds check and no raise.
\<close>

definition to_dataframe :: "table_range \<Rightarrow> 'a frame \<Rightarrow> error + 'a frame" where
  "to_dataframe t df =
     Inr (map (py_slice (start_col t) (stop_col t)) (py_slice (start_row t) (stop_row t) df))"

definition has_min_size :: "table_range \<Rightarrow> int \<Rightarrow> int \<Rightarrow> bool" where
  "has_min_size t min_n_rows min_n_cols =
     (if stop_row t - start_row t < min_n_rows then False
      else if stop_col t - start_col t < min_n_cols then False
      else True)"

text \<open>A cell position lies in the rectangle of a range (stop bounds exclusive).\<close>

definition inside :: "table_range \<Rightarrow> int \<Rightarrow> int \<Rightarrow> bool" where
  "inside t r c = (start_row t \<le> r \<and> r < stop_row t \<and> start_col t \<le> c \<and> c < stop_col t)"

text \<open>The invariant the data model states for a range, and a range empty in a dimension.\<close>

definition ordered :: "table_range \<Rightarrow> bool" where
  "ordered t = (start_row t \<le> stop_row t \<and> start_col t \<le> stop_col t)"

definition degenerate :: "table_range \<Rightarrow> bool" where
  "degenerate t = (stop_row t = start_row t \<or> stop_col t = start_col t)"

section \<open>The range finder\<close>

definition logical_not :: "bool list list \<Rightarrow> bool list list" where
  "logical_not a = map (map Not) a"

text \<open>
  The first loop of the growth routine, over \<^verbatim>\<open>range(start_col, last_col)\<close>: it stops
  at the first false cell of the anchor row, and otherwise moves \<^verbatim>\<open>stop_col\<close> past the
  column. The first argument is \<^verbatim>\<open>array_is_false_at\<close>.
\<close>

fun scan_cols :: "bool list list \<Rightarrow> nat \<Rightarrow> nat list \<Rightarrow> nat \<Rightarrow> error + nat" where
  "scan_cols f row0 [] col1 = Inr col1"
| "scan_cols f row0 (col # cols) col1 =
     (case item f row0 col of
        Inl e \<Rightarrow> Inl e
      | Inr b \<Rightarrow> if b then Inr col1 else scan_cols f row0 cols (col + 1))"

text \<open>
  The second loop, over \<^verbatim>\<open>range(start_row, last_row)\<close>: it stops at the first row whose
  slice \<^verbatim>\<open>[start_col:stop_col]\<close> is all false, and otherwise moves \<^verbatim>\<open>stop_row\<close> past
  the row.
\<close>

fun scan_rows :: "bool list list \<Rightarrow> nat \<Rightarrow> nat \<Rightarrow> nat list \<Rightarrow> nat \<Rightarrow> error + nat" where
  "scan_rows f col0 col1 [] row1 = Inr row1"
| "scan_rows f col0 col1 (row # rows) row1 =
     (case row_at f row of
        Inl e \<Rightarrow> Inl e
      | Inr xs \<Rightarrow>
          if list_all id (py_slice (int col0) (int col1) xs) then Inr row1
          else scan_rows f col0 col1 rows (row + 1))"

text \<open>
  \<^verbatim>\<open>_find_table_range_from_boolean_array_starting_at\<close>. The locals \<open>row0\<close>, \<open>col0\<close>,
  \<open>row1\<close>, \<open>col1\<close> are the source's \<^verbatim>\<open>start_row\<close>, \<^verbatim>\<open>start_col\<close>, \<^verbatim>\<open>stop_row\<close>,
  \<^verbatim>\<open>stop_col\<close>. The anchor is a position that is not negative.
\<close>

fun find_table_range_from_boolean_array_starting_at ::
  "nat \<times> nat \<Rightarrow> ndarray \<Rightarrow> error + table_range" where
  "find_table_range_from_boolean_array_starting_at p (IntArray a) = Inl TypeError"
| "find_table_range_from_boolean_array_starting_at (row0, col0) (BoolArray a) =
     (let (last_row, last_col) = shape a;
          array_is_false_at = logical_not a
      in case scan_cols array_is_false_at row0 [col0..<last_col] col0 of
           Inl e \<Rightarrow> Inl e
         | Inr col1 \<Rightarrow>
             (case scan_rows array_is_false_at col0 col1 [row0..<last_row] row0 of
                Inl e \<Rightarrow> Inl e
              | Inr row1 \<Rightarrow> TableRange [int row0, int col0] [int row1, int col1]))"

text \<open>
  The sweep of \<^verbatim>\<open>find_all_table_range\<close> mutates two variables: the working presence
  array and the result list.
\<close>

record sweep_state =
  value_exists_at :: "bool list list"
  list_table_range :: "table_range list"

text \<open>A \<^verbatim>\<open>for\<close> loop whose body may raise.\<close>

fun for_each :: "('i \<Rightarrow> 's \<Rightarrow> error + 's) \<Rightarrow> 'i list \<Rightarrow> 's \<Rightarrow> error + 's" where
  "for_each body [] s = Inr s"
| "for_each body (x # xs) s =
     (case body x s of Inl e \<Rightarrow> Inl e | Inr s' \<Rightarrow> for_each body xs s')"

text \<open>The body of the inner loop, at one cell.\<close>

definition visit :: "int \<Rightarrow> int \<Rightarrow> nat \<Rightarrow> nat \<Rightarrow> sweep_state \<Rightarrow> error + sweep_state" where
  "visit min_n_rows min_n_cols row col s =
     (case item (value_exists_at s) row col of
        Inl e \<Rightarrow> Inl e
      | Inr present \<Rightarrow>
          if present then
            (case find_table_range_from_boolean_array_starting_at (row, col)
                    (BoolArray (value_exists_at s)) of
               Inl e \<Rightarrow> Inl e
             | Inr t \<Rightarrow>
                 if has_min_size t min_n_rows min_n_cols then
                   Inr \<lparr>value_exists_at = fill_inplace t (value_exists_at s) False,
                        list_table_range = list_table_range s @ [t]\<rparr>
                 else Inr s)
          else Inr s)"

definition sweep_row :: "int \<Rightarrow> int \<Rightarrow> nat \<Rightarrow> nat \<Rightarrow> sweep_state \<Rightarrow> error + sweep_state" where
  "sweep_row min_n_rows min_n_cols last_col row s =
     for_each (visit min_n_rows min_n_cols row) [0..<last_col] s"

definition sweep :: "int \<Rightarrow> int \<Rightarrow> nat \<Rightarrow> nat \<Rightarrow> sweep_state \<Rightarrow> error + sweep_state" where
  "sweep min_n_rows min_n_cols last_row last_col s =
     for_each (sweep_row min_n_rows min_n_cols last_col) [0..<last_row] s"

definition notna :: "'a frame \<Rightarrow> bool list list" where
  "notna df = map (map (\<lambda>x. x \<noteq> None)) df"

definition find_all_table_range :: "'a frame \<Rightarrow> int \<Rightarrow> int \<Rightarrow> error + table_range list" where
  "find_all_table_range df min_n_rows min_n_cols =
     (let presence = notna df;
          (last_row, last_col) = shape presence
      in case sweep min_n_rows min_n_cols last_row last_col
                \<lparr>value_exists_at = presence, list_table_range = []\<rparr> of
           Inl e \<Rightarrow> Inl e
         | Inr s \<Rightarrow> Inr (list_table_range s))"

text \<open>The cells of the DataFrame of the module's example and tests.\<close>

datatype scalar = Text string | Integer int | Floating int

definition example_frame :: "scalar frame" where
  "example_frame =
     [[Some (Text ''a''), Some (Text ''b''), None, None, None],
      [Some (Integer 0), Some (Floating 10), None, Some (Text ''c''), Some (Text ''d'')],
      [None, None, None, None, Some (Integer (- 4))]]"

definition example_boolean_array :: "bool list list" where
  "example_boolean_array =
     [[False, True, True, False],
      [False, False, True, False],
      [False, True, False, False],
      [False, False, False, True],
      [False, False, False, False]]"

section \<open>Predicates of the proofs\<close>

text \<open>An array with \<open>R\<close> rows, each of \<open>C\<close> cells.\<close>

definition has_shape :: "'a list list \<Rightarrow> nat \<Rightarrow> nat \<Rightarrow> bool" where
  "has_shape a R C = (length a = R \<and> (\<forall>r < R. length (a ! r) = C))"

text \<open>
  What the sweep keeps true of an accepted range \<open>t\<close>, the original presence array \<open>orig\<close>
  and the working array \<open>m\<close> while row \<open>n - 1\<close> is swept: the range is not empty, lies in the
  array and is anchored above row \<open>n\<close>; its cells are erased from the working array; its
  anchor row is present in the original array; it has the minimum size.
\<close>

definition range_ok ::
  "bool list list \<Rightarrow> bool list list \<Rightarrow> nat \<Rightarrow> nat \<Rightarrow> int \<Rightarrow> int \<Rightarrow> nat \<Rightarrow> table_range \<Rightarrow> bool" where
  "range_ok orig m R C mr mc n t =
     (0 \<le> start_row t \<and> start_row t < int n \<and> start_row t < stop_row t \<and> stop_row t \<le> int R \<and>
      0 \<le> start_col t \<and> start_col t < stop_col t \<and> stop_col t \<le> int C \<and>
      (\<forall>r c. inside t (int r) (int c) \<longrightarrow> \<not> m ! r ! c) \<and>
      (\<forall>c. nat (start_col t) \<le> c \<and> c < nat (stop_col t) \<longrightarrow> orig ! nat (start_row t) ! c) \<and>
      has_min_size t mr mc)"

text \<open>No cell position lies in two ranges at different places of the list.\<close>

definition pairwise_disjoint :: "table_range list \<Rightarrow> bool" where
  "pairwise_disjoint ts =
     (\<forall>i j. i < j \<and> j < length ts \<longrightarrow> (\<forall>r c. \<not> (inside (ts ! i) r c \<and> inside (ts ! j) r c)))"

text \<open>
  The invariant of the sweep: the working array keeps its shape and only loses cells, and
  the accepted ranges are as above and pairwise disjoint.
\<close>

definition sweep_inv ::
  "bool list list \<Rightarrow> nat \<Rightarrow> nat \<Rightarrow> int \<Rightarrow> int \<Rightarrow> nat \<Rightarrow> sweep_state \<Rightarrow> bool" where
  "sweep_inv orig R C mr mc n s =
     (has_shape (value_exists_at s) R C \<and>
      (\<forall>r < R. \<forall>c < C. value_exists_at s ! r ! c \<longrightarrow> orig ! r ! c) \<and>
      (\<forall>t \<in> set (list_table_range s). range_ok orig (value_exists_at s) R C mr mc n t) \<and>
      pairwise_disjoint (list_table_range s))"

text \<open>The array after erasing the ranges of a list, in order.\<close>

definition erase_all :: "bool list list \<Rightarrow> table_range list \<Rightarrow> bool list list" where
  "erase_all a ts = foldl (\<lambda>b t. fill_inplace t b False) a ts"

text \<open>
  The effect of a part of the sweep on its state: ranges of minimum size are appended, and
  the working array changes by their erasure only.
\<close>

definition sweep_frame :: "int \<Rightarrow> int \<Rightarrow> sweep_state \<Rightarrow> sweep_state \<Rightarrow> bool" where
  "sweep_frame mr mc s s' =
     (\<exists>ts. list_table_range s' = list_table_range s @ ts \<and>
           value_exists_at s' = erase_all (value_exists_at s) ts \<and>
           (\<forall>t \<in> set ts. has_min_size t mr mc))"

section \<open>Slices and assignment to a slice\<close>

lemma slice_bound_int [simp]: "slice_bound (int k) n = min k n"
  by (simp add: slice_bound_def)

lemma slice_bound_nonneg: "0 \<le> i \<Longrightarrow> slice_bound i n = min (nat i) n"
  by (simp add: slice_bound_def)

lemma slice_bound_le: "slice_bound i n \<le> n"
  by (auto simp: slice_bound_def)

lemma in_slice_nonneg:
  "0 \<le> a \<Longrightarrow> 0 \<le> b \<Longrightarrow> i < n \<Longrightarrow> in_slice a b n i = (a \<le> int i \<and> int i < b)"
  by (auto simp: in_slice_def slice_bound_nonneg)

lemma length_py_slice:
  "length (py_slice a b xs) = slice_bound b (length xs) - slice_bound a (length xs)"
  using slice_bound_le [of b "length xs"] by (simp add: py_slice_def Let_def)

lemma nth_py_slice:
  "j < length (py_slice a b xs) \<Longrightarrow> py_slice a b xs ! j = xs ! (slice_bound a (length xs) + j)"
  using slice_bound_le [of b "length xs"] by (simp add: py_slice_def Let_def)

lemma list_all_py_slice:
  "list_all P (py_slice (int a) (int b) xs) = (\<forall>j. a \<le> j \<and> j < b \<and> j < length xs \<longrightarrow> P (xs ! j))"
proof -
  let ?lo = "min a (length xs)" and ?hi = "min b (length xs)"
  have "list_all P (py_slice (int a) (int b) xs) = (\<forall>j < ?hi - ?lo. P (xs ! (?lo + j)))"
    by (simp add: list_all_length length_py_slice nth_py_slice)
  also have "\<dots> = (\<forall>j. a \<le> j \<and> j < b \<and> j < length xs \<longrightarrow> P (xs ! j))"
  proof (intro iffI allI impI)
    fix j assume h: "\<forall>j < ?hi - ?lo. P (xs ! (?lo + j))" and j: "a \<le> j \<and> j < b \<and> j < length xs"
    then have "j - ?lo < ?hi - ?lo" by auto
    with h have "P (xs ! (?lo + (j - ?lo)))" by blast
    moreover from j have "?lo + (j - ?lo) = j" by auto
    ultimately show "P (xs ! j)" by simp
  next
    fix j assume h: "\<forall>j. a \<le> j \<and> j < b \<and> j < length xs \<longrightarrow> P (xs ! j)" and j: "j < ?hi - ?lo"
    then have "a \<le> ?lo + j \<and> ?lo + j < b \<and> ?lo + j < length xs" by auto
    with h show "P (xs ! (?lo + j))" by blast
  qed
  finally show ?thesis .
qed

lemma length_fill_row [simp]: "length (fill_row t xs v) = length xs"
  by (simp add: fill_row_def)

lemma length_fill_inplace [simp]: "length (fill_inplace t a v) = length a"
  by (simp add: fill_inplace_def)

lemma nth_fill_row:
  "j < length xs \<Longrightarrow>
   fill_row t xs v ! j = (if in_slice (start_col t) (stop_col t) (length xs) j then v else xs ! j)"
  by (simp add: fill_row_def)

lemma nth_fill_inplace:
  "i < length a \<Longrightarrow>
   fill_inplace t a v ! i =
     (if in_slice (start_row t) (stop_row t) (length a) i then fill_row t (a ! i) v else a ! i)"
  by (simp add: fill_inplace_def)

lemma length_nth_fill_inplace:
  "i < length a \<Longrightarrow> length (fill_inplace t a v ! i) = length (a ! i)"
  by (simp add: nth_fill_inplace)

lemma cell_fill_inplace:
  assumes "0 \<le> start_row t" "0 \<le> stop_row t" "0 \<le> start_col t" "0 \<le> stop_col t"
    and "i < length a" "j < length (a ! i)"
  shows "fill_inplace t a v ! i ! j = (if inside t (int i) (int j) then v else a ! i ! j)"
  using assms by (auto simp: nth_fill_inplace nth_fill_row in_slice_nonneg inside_def)

lemma length_py_slice_nonneg:
  assumes "0 \<le> a" "0 \<le> b"
  shows "length (py_slice a b xs) = min (nat b) (length xs) - min (nat a) (length xs)"
  using assms by (simp only: length_py_slice slice_bound_nonneg)

lemma nth_py_slice_nonneg:
  assumes "0 \<le> a" "0 \<le> b" "j < length (py_slice a b xs)"
  shows "py_slice a b xs ! j = xs ! (nat a + j)"
proof -
  from assms have "j < min (nat b) (length xs) - min (nat a) (length xs)"
    by (simp only: length_py_slice_nonneg)
  then have "min (nat a) (length xs) = nat a"
    by linarith
  with assms(1) have "slice_bound a (length xs) = nat a"
    by (simp only: slice_bound_nonneg)
  with assms(3) show ?thesis
    by (simp only: nth_py_slice)
qed

section \<open>The growth routine\<close>

lemma rectangular_has_shape:
  "rectangular a \<Longrightarrow> has_shape a (fst (shape a)) (snd (shape a))"
  by (simp add: rectangular_def has_shape_def shape_def list_all_length)

lemma has_shape_shape: "has_shape a R C \<Longrightarrow> 0 < R \<Longrightarrow> shape a = (R, C)"
  by (cases a) (auto simp: has_shape_def shape_def)

lemma has_shape_rectangular: "has_shape a R C \<Longrightarrow> rectangular a"
  by (cases a) (auto simp: has_shape_def rectangular_def shape_def list_all_length)

lemma has_shape_notna: "has_shape df R C \<Longrightarrow> has_shape (notna df) R C"
  by (simp add: has_shape_def notna_def)

lemma item_in_range:
  "row < length a \<Longrightarrow> col < length (a ! row) \<Longrightarrow> item a row col = Inr (a ! row ! col)"
  by (simp add: item_def)

lemma item_logical_not:
  "row < length a \<Longrightarrow> col < length (a ! row) \<Longrightarrow>
   item (logical_not a) row col = Inr (\<not> a ! row ! col)"
  by (simp add: item_def logical_not_def)

lemma row_at_logical_not:
  "row < length a \<Longrightarrow> row_at (logical_not a) row = Inr (map Not (a ! row))"
  by (simp add: row_at_def logical_not_def)

lemma scan_cols_upt:
  assumes "row0 < length a" "length (a ! row0) = C"
  shows "k \<le> C \<Longrightarrow>
    \<exists>col1. scan_cols (logical_not a) row0 [k..<C] k = Inr col1 \<and> k \<le> col1 \<and> col1 \<le> C \<and>
      (\<forall>c. k \<le> c \<and> c < col1 \<longrightarrow> a ! row0 ! c) \<and> (col1 < C \<longrightarrow> \<not> a ! row0 ! col1)"
proof (induction "C - k" arbitrary: k)
  case 0
  then have "k = C" by simp
  then show ?case by auto
next
  case (Suc n)
  then have k: "k < C" by simp
  then have upt: "[k..<C] = k # [Suc k..<C]" by (simp add: upt_conv_Cons)
  from k assms have it: "item (logical_not a) row0 k = Inr (\<not> a ! row0 ! k)"
    by (simp add: item_logical_not)
  show ?case
  proof (cases "a ! row0 ! k")
    case False
    with upt it k show ?thesis by auto
  next
    case True
    from Suc k have "n = C - Suc k" "Suc k \<le> C" by simp_all
    from Suc.hyps(1) [OF this] obtain col1 where
      c: "scan_cols (logical_not a) row0 [Suc k..<C] (Suc k) = Inr col1" "Suc k \<le> col1" "col1 \<le> C"
        "\<forall>c. Suc k \<le> c \<and> c < col1 \<longrightarrow> a ! row0 ! c" "col1 < C \<longrightarrow> \<not> a ! row0 ! col1"
      by blast
    have "\<forall>c. k \<le> c \<and> c < col1 \<longrightarrow> a ! row0 ! c"
    proof (intro allI impI)
      fix c assume "k \<le> c \<and> c < col1"
      then have "c = k \<or> (Suc k \<le> c \<and> c < col1)" by auto
      with True c(4) show "a ! row0 ! c" by blast
    qed
    with upt it True c show ?thesis by auto
  qed
qed

lemma row_all_false:
  assumes "length xs = C" "col1 \<le> C"
  shows "list_all id (py_slice (int col0) (int col1) (map Not xs)) =
         (\<forall>c. col0 \<le> c \<and> c < col1 \<longrightarrow> \<not> xs ! c)"
proof -
  have "list_all id (py_slice (int col0) (int col1) (map Not xs)) =
        (\<forall>j. col0 \<le> j \<and> j < col1 \<and> j < length (map Not xs) \<longrightarrow> id (map Not xs ! j))"
    by (rule list_all_py_slice)
  also have "\<dots> = (\<forall>c. col0 \<le> c \<and> c < col1 \<longrightarrow> \<not> xs ! c)"
    using assms by auto
  finally show ?thesis .
qed

lemma scan_rows_upt:
  assumes "has_shape a R C" "col1 \<le> C"
  shows "k \<le> R \<Longrightarrow>
    \<exists>row1. scan_rows (logical_not a) col0 col1 [k..<R] k = Inr row1 \<and> k \<le> row1 \<and> row1 \<le> R \<and>
      (\<forall>r. k \<le> r \<and> r < row1 \<longrightarrow> (\<exists>c. col0 \<le> c \<and> c < col1 \<and> a ! r ! c)) \<and>
      (row1 < R \<longrightarrow> (\<forall>c. col0 \<le> c \<and> c < col1 \<longrightarrow> \<not> a ! row1 ! c))"
proof (induction "R - k" arbitrary: k)
  case 0
  then have "k = R" by simp
  then show ?case by auto
next
  case (Suc n)
  then have k: "k < R" by simp
  then have upt: "[k..<R] = k # [Suc k..<R]" by (simp add: upt_conv_Cons)
  from k assms have len: "k < length a" "length (a ! k) = C" by (simp_all add: has_shape_def)
  then have rw: "row_at (logical_not a) k = Inr (map Not (a ! k))"
    by (simp add: row_at_logical_not)
  have allf: "list_all id (py_slice (int col0) (int col1) (map Not (a ! k))) =
              (\<forall>c. col0 \<le> c \<and> c < col1 \<longrightarrow> \<not> a ! k ! c)"
    using len(2) assms(2) by (rule row_all_false)
  show ?case
  proof (cases "\<forall>c. col0 \<le> c \<and> c < col1 \<longrightarrow> \<not> a ! k ! c")
    case True
    with allf have "scan_rows (logical_not a) col0 col1 [k..<R] k = Inr k"
      by (simp add: upt rw)
    with True k show ?thesis by auto
  next
    case False
    from Suc k have "n = R - Suc k" "Suc k \<le> R" by simp_all
    from Suc.hyps(1) [OF this] obtain row1 where
      r: "scan_rows (logical_not a) col0 col1 [Suc k..<R] (Suc k) = Inr row1" "Suc k \<le> row1" "row1 \<le> R"
        "\<forall>r. Suc k \<le> r \<and> r < row1 \<longrightarrow> (\<exists>c. col0 \<le> c \<and> c < col1 \<and> a ! r ! c)"
        "row1 < R \<longrightarrow> (\<forall>c. col0 \<le> c \<and> c < col1 \<longrightarrow> \<not> a ! row1 ! c)"
      by blast
    from False allf have "\<not> list_all id (py_slice (int col0) (int col1) (map Not (a ! k)))"
      by blast
    with r(1) have res: "scan_rows (logical_not a) col0 col1 [k..<R] k = Inr row1"
      by (simp add: upt rw)
    have "\<forall>r. k \<le> r \<and> r < row1 \<longrightarrow> (\<exists>c. col0 \<le> c \<and> c < col1 \<and> a ! r ! c)"
    proof (intro allI impI)
      fix r' assume "k \<le> r' \<and> r' < row1"
      then have "r' = k \<or> (Suc k \<le> r' \<and> r' < row1)" by auto
      with False r(4) show "\<exists>c. col0 \<le> c \<and> c < col1 \<and> a ! r' ! c" by blast
    qed
    with res r show ?thesis by auto
  qed
qed

lemma growth_has_shape:
  assumes "has_shape a R C" "row0 < R" "col0 \<le> C"
  shows "\<exists>row1 col1.
    find_table_range_from_boolean_array_starting_at (row0, col0) (BoolArray a) =
      Inr \<lparr>start_row = int row0, start_col = int col0, stop_row = int row1, stop_col = int col1\<rparr> \<and>
    col0 \<le> col1 \<and> col1 \<le> C \<and>
    (\<forall>c. col0 \<le> c \<and> c < col1 \<longrightarrow> a ! row0 ! c) \<and> (col1 < C \<longrightarrow> \<not> a ! row0 ! col1) \<and>
    row0 \<le> row1 \<and> row1 \<le> R \<and>
    (\<forall>r. row0 \<le> r \<and> r < row1 \<longrightarrow> (\<exists>c. col0 \<le> c \<and> c < col1 \<and> a ! r ! c)) \<and>
    (row1 < R \<longrightarrow> (\<forall>c. col0 \<le> c \<and> c < col1 \<longrightarrow> \<not> a ! row1 ! c))"
proof -
  from assms have sh: "shape a = (R, C)" by (simp add: has_shape_shape)
  from assms have "row0 < length a" "length (a ! row0) = C" by (simp_all add: has_shape_def)
  from scan_cols_upt [OF this assms(3)] obtain col1 where
    c: "scan_cols (logical_not a) row0 [col0..<C] col0 = Inr col1" "col0 \<le> col1" "col1 \<le> C"
      "\<forall>c. col0 \<le> c \<and> c < col1 \<longrightarrow> a ! row0 ! c" "col1 < C \<longrightarrow> \<not> a ! row0 ! col1"
    by blast
  from assms(2) have "row0 \<le> R" by simp
  from scan_rows_upt [OF assms(1) c(3) this, of col0] obtain row1 where
    r: "scan_rows (logical_not a) col0 col1 [row0..<R] row0 = Inr row1" "row0 \<le> row1" "row1 \<le> R"
      "\<forall>r. row0 \<le> r \<and> r < row1 \<longrightarrow> (\<exists>c. col0 \<le> c \<and> c < col1 \<and> a ! r ! c)"
      "row1 < R \<longrightarrow> (\<forall>c. col0 \<le> c \<and> c < col1 \<longrightarrow> \<not> a ! row1 ! c)"
    by blast
  have "find_table_range_from_boolean_array_starting_at (row0, col0) (BoolArray a) =
      Inr \<lparr>start_row = int row0, start_col = int col0, stop_row = int row1, stop_col = int col1\<rparr>"
    by (simp add: sh c(1) r(1) TableRange_def)
  with c r show ?thesis by blast
qed

section \<open>The sweep keeps its invariant\<close>

lemma has_shape_fill_inplace: "has_shape m R C \<Longrightarrow> has_shape (fill_inplace t m v) R C"
  by (simp add: has_shape_def length_nth_fill_inplace)

lemma fill_cell:
  assumes "has_shape m R C" "0 \<le> start_row t" "0 \<le> stop_row t" "0 \<le> start_col t" "0 \<le> stop_col t"
    and "r < R" "c < C"
  shows "fill_inplace t m v ! r ! c = (if inside t (int r) (int c) then v else m ! r ! c)"
proof -
  from assms(1,6,7) have "r < length m" "c < length (m ! r)" by (simp_all add: has_shape_def)
  with assms(2-5) show ?thesis by (rule cell_fill_inplace)
qed

lemma pairwise_disjoint_snoc:
  assumes "pairwise_disjoint ts" "\<forall>u \<in> set ts. \<forall>r c. \<not> (inside u r c \<and> inside t r c)"
  shows "pairwise_disjoint (ts @ [t])"
  unfolding pairwise_disjoint_def
proof (intro allI impI)
  fix i j r c assume ij: "i < j \<and> j < length (ts @ [t])"
  show "\<not> (inside ((ts @ [t]) ! i) r c \<and> inside ((ts @ [t]) ! j) r c)"
  proof (cases "j < length ts")
    case True
    with ij have "(ts @ [t]) ! i = ts ! i" "(ts @ [t]) ! j = ts ! j" by (simp_all add: nth_append)
    with assms(1) ij True show ?thesis by (simp add: pairwise_disjoint_def)
  next
    case False
    with ij have j: "j = length ts" by simp
    with ij have "(ts @ [t]) ! i = ts ! i" "ts ! i \<in> set ts" "(ts @ [t]) ! j = t"
      by (simp_all add: nth_append)
    with assms(2) show ?thesis by metis
  qed
qed

lemma disjoint_from_erased:
  assumes ok: "range_ok orig m R C mr mc (Suc row) u"
    and header: "\<forall>c. col \<le> c \<and> c < col1 \<longrightarrow> m ! row ! c"
  shows "\<not> (inside u r c \<and>
            inside \<lparr>start_row = int row, start_col = int col, stop_row = int row1, stop_col = int col1\<rparr> r c)"
proof
  assume both: "inside u r c \<and>
     inside \<lparr>start_row = int row, start_col = int col, stop_row = int row1, stop_col = int col1\<rparr> r c"
  then have c: "int col \<le> c" "c < int col1" and r: "int row \<le> r"
    by (simp_all add: inside_def)
  from both have u: "start_row u \<le> r" "r < stop_row u" "start_col u \<le> c" "c < stop_col u"
    by (simp_all add: inside_def)
  from ok have "start_row u < int (Suc row)" by (simp add: range_ok_def)
  with u r have "inside u (int row) c" by (simp add: inside_def)
  moreover from c have cn: "c = int (nat c)" by simp
  ultimately have "inside u (int row) (int (nat c))" by simp
  with ok have "\<not> m ! row ! nat c" by (simp add: range_ok_def)
  moreover from c have "col \<le> nat c \<and> nat c < col1" by linarith
  with header have "m ! row ! nat c" by blast
  ultimately show False by contradiction
qed

lemma range_ok_after_fill:
  assumes ok: "range_ok orig m R C mr mc n u" and sh: "has_shape m R C"
    and t: "0 \<le> start_row t" "0 \<le> stop_row t" "0 \<le> start_col t" "0 \<le> stop_col t"
  shows "range_ok orig (fill_inplace t m False) R C mr mc n u"
proof -
  have "\<not> fill_inplace t m False ! r ! c" if "inside u (int r) (int c)" for r c
  proof -
    from that ok have rc: "r < R" "c < C" by (simp_all add: inside_def range_ok_def)
    from that ok have "\<not> m ! r ! c" by (simp add: range_ok_def)
    with fill_cell [OF sh t rc, of False] show ?thesis by simp
  qed
  with ok show ?thesis by (simp add: range_ok_def)
qed

lemma range_ok_new:
  assumes sh: "has_shape m R C"
    and mono: "\<forall>r < R. \<forall>c < C. m ! r ! c \<longrightarrow> orig ! r ! c"
    and b: "row < R" "row < row1" "row1 \<le> R" "col < col1" "col1 \<le> C"
    and header: "\<forall>c. col \<le> c \<and> c < col1 \<longrightarrow> m ! row ! c"
    and sz: "has_min_size \<lparr>start_row = int row, start_col = int col, stop_row = int row1, stop_col = int col1\<rparr> mr mc"
  shows "range_ok orig
           (fill_inplace \<lparr>start_row = int row, start_col = int col, stop_row = int row1, stop_col = int col1\<rparr> m False)
           R C mr mc (Suc row)
           \<lparr>start_row = int row, start_col = int col, stop_row = int row1, stop_col = int col1\<rparr>"
proof -
  let ?t = "\<lparr>start_row = int row, start_col = int col, stop_row = int row1, stop_col = int col1\<rparr>"
  have t: "0 \<le> start_row ?t" "0 \<le> stop_row ?t" "0 \<le> start_col ?t" "0 \<le> stop_col ?t" by simp_all
  have er: "\<not> fill_inplace ?t m False ! r ! c" if "inside ?t (int r) (int c)" for r c
  proof -
    from that b have rc: "r < R" "c < C" by (simp_all add: inside_def)
    from fill_cell [OF sh t rc, of False] that show ?thesis by simp
  qed
  have hd: "orig ! row ! c" if "col \<le> c \<and> c < col1" for c
  proof -
    from that header have "m ! row ! c" by blast
    moreover from that b have "c < C" by simp
    ultimately show ?thesis using mono b(1) by blast
  qed
  from b er hd sz show ?thesis by (simp add: range_ok_def)
qed

lemma sweep_inv_mono: "sweep_inv orig R C mr mc n s \<Longrightarrow> sweep_inv orig R C mr mc (Suc n) s"
  by (auto simp: sweep_inv_def range_ok_def)

lemma visit_inv:
  assumes inv: "sweep_inv orig R C mr mc (Suc row) s" and row: "row < R" and col: "col < C"
  shows "\<exists>s'. visit mr mc row col s = Inr s' \<and> sweep_inv orig R C mr mc (Suc row) s'"
proof -
  let ?m = "value_exists_at s" and ?ts = "list_table_range s"
  from inv have sh: "has_shape ?m R C"
    and mono: "\<forall>r < R. \<forall>c < C. ?m ! r ! c \<longrightarrow> orig ! r ! c"
    and ok: "\<forall>u \<in> set ?ts. range_ok orig ?m R C mr mc (Suc row) u"
    and pd: "pairwise_disjoint ?ts"
    by (simp_all add: sweep_inv_def)
  from sh row col have it: "item ?m row col = Inr (?m ! row ! col)"
    by (simp add: item_in_range has_shape_def)
  show ?thesis
  proof (cases "?m ! row ! col")
    case False
    with it have "visit mr mc row col s = Inr s" by (simp add: visit_def)
    with inv show ?thesis by simp
  next
    case True
    from col have "col \<le> C" by simp
    from growth_has_shape [OF sh row this] obtain row1 col1 where
      g: "find_table_range_from_boolean_array_starting_at (row, col) (BoolArray ?m) =
            Inr \<lparr>start_row = int row, start_col = int col, stop_row = int row1, stop_col = int col1\<rparr>"
      and c: "col \<le> col1" "col1 \<le> C" "col1 < C \<longrightarrow> \<not> ?m ! row ! col1"
      and header: "\<forall>c. col \<le> c \<and> c < col1 \<longrightarrow> ?m ! row ! c"
      and r: "row \<le> row1" "row1 \<le> R"
        "row1 < R \<longrightarrow> (\<forall>c. col \<le> c \<and> c < col1 \<longrightarrow> \<not> ?m ! row1 ! c)"
      by blast
    let ?t = "\<lparr>start_row = int row, start_col = int col, stop_row = int row1, stop_col = int col1\<rparr>"
    show ?thesis
    proof (cases "has_min_size ?t mr mc")
      case False
      with it True g have "visit mr mc row col s = Inr s" by (simp add: visit_def)
      with inv show ?thesis by simp
    next
      case sz: True
      let ?s' = "\<lparr>value_exists_at = fill_inplace ?t ?m False, list_table_range = ?ts @ [?t]\<rparr>"
      from it True g sz have res: "visit mr mc row col s = Inr ?s'" by (simp add: visit_def)
      from True c col have cc: "col < col1" by (cases "col1 = col") auto
      have rr: "row < row1"
      proof (rule ccontr)
        assume "\<not> row < row1"
        with r(1) have "row1 = row" by simp
        with r(3) row cc have "\<not> ?m ! row ! col" by simp
        with True show False by contradiction
      qed
      have t: "0 \<le> start_row ?t" "0 \<le> stop_row ?t" "0 \<le> start_col ?t" "0 \<le> stop_col ?t"
        by simp_all
      have sh': "has_shape (fill_inplace ?t ?m False) R C"
        using sh by (rule has_shape_fill_inplace)
      have mono': "\<forall>r < R. \<forall>c < C. fill_inplace ?t ?m False ! r ! c \<longrightarrow> orig ! r ! c"
      proof (intro allI impI)
        fix r' c' assume rc: "r' < R" "c' < C" and f: "fill_inplace ?t ?m False ! r' ! c'"
        from fill_cell [OF sh t rc, of False] f have "?m ! r' ! c'" by (simp split: if_splits)
        with mono rc show "orig ! r' ! c'" by blast
      qed
      have old: "range_ok orig (fill_inplace ?t ?m False) R C mr mc (Suc row) u" if "u \<in> set ?ts" for u
      proof -
        from that ok have "range_ok orig ?m R C mr mc (Suc row) u" by blast
        from range_ok_after_fill [OF this sh t] show ?thesis .
      qed
      have new: "range_ok orig (fill_inplace ?t ?m False) R C mr mc (Suc row) ?t"
        using sh mono row rr r(2) cc c(2) header sz by (rule range_ok_new)
      have "\<forall>u \<in> set ?ts. \<forall>r c. \<not> (inside u r c \<and> inside ?t r c)"
        using ok header disjoint_from_erased by blast
      with pd have pd': "pairwise_disjoint (?ts @ [?t])" by (rule pairwise_disjoint_snoc)
      from sh' mono' old new pd' have "sweep_inv orig R C mr mc (Suc row) ?s'"
        by (simp add: sweep_inv_def)
      with res show ?thesis by blast
    qed
  qed
qed

lemma for_each_append:
  "for_each body (xs @ ys) s =
     (case for_each body xs s of Inl e \<Rightarrow> Inl e | Inr s' \<Rightarrow> for_each body ys s')"
  by (induction xs arbitrary: s) (auto split: sum.splits)

lemma for_each_invariant:
  assumes "\<And>x s. x \<in> set xs \<Longrightarrow> I s \<Longrightarrow> \<exists>s'. body x s = Inr s' \<and> I s'"
  shows "I s \<Longrightarrow> \<exists>s'. for_each body xs s = Inr s' \<and> I s'"
  using assms
proof (induction xs arbitrary: s)
  case Nil
  then show ?case by simp
next
  case (Cons x xs)
  from Cons.prems(2) [of x s] Cons.prems(1) obtain s1 where s1: "body x s = Inr s1" "I s1"
    by auto
  from Cons.IH [OF s1(2)] Cons.prems(2) obtain s' where "for_each body xs s1 = Inr s'" "I s'"
    by auto
  with s1 show ?case by simp
qed

lemma for_each_upt_invariant:
  assumes "\<And>i s. i < n \<Longrightarrow> J i s \<Longrightarrow> \<exists>s'. body i s = Inr s' \<and> J (Suc i) s'"
  shows "J 0 s \<Longrightarrow> \<exists>s'. for_each body [0..<n] s = Inr s' \<and> J n s'"
  using assms
proof (induction n)
  case 0
  then show ?case by simp
next
  case (Suc n)
  from Suc.IH [OF Suc.prems(1)] Suc.prems(2) obtain s1 where
    s1: "for_each body [0..<n] s = Inr s1" "J n s1"
    by auto
  from Suc.prems(2) [of n s1] s1(2) obtain s' where "body n s1 = Inr s'" "J (Suc n) s'"
    by auto
  with s1 show ?case by (simp add: for_each_append)
qed

lemma sweep_row_inv:
  assumes "sweep_inv orig R C mr mc row s" "row < R"
  shows "\<exists>s'. sweep_row mr mc C row s = Inr s' \<and> sweep_inv orig R C mr mc (Suc row) s'"
  unfolding sweep_row_def
proof (rule for_each_invariant)
  from assms(1) show "sweep_inv orig R C mr mc (Suc row) s" by (rule sweep_inv_mono)
next
  fix col s1
  assume "col \<in> set [0..<C]" and i: "sweep_inv orig R C mr mc (Suc row) s1"
  then have "col < C" by simp
  with i assms(2) show "\<exists>s'. visit mr mc row col s1 = Inr s' \<and> sweep_inv orig R C mr mc (Suc row) s'"
    by (simp add: visit_inv)
qed

lemma sweep_inv_final:
  assumes "sweep_inv orig R C mr mc 0 s"
  shows "\<exists>s'. sweep mr mc R C s = Inr s' \<and> sweep_inv orig R C mr mc R s'"
  unfolding sweep_def
  using sweep_row_inv assms
  by (rule for_each_upt_invariant [where J = "sweep_inv orig R C mr mc"])

lemma sweep_inv_initial:
  "has_shape m R C \<Longrightarrow> sweep_inv m R C mr mc 0 \<lparr>value_exists_at = m, list_table_range = []\<rparr>"
  by (simp add: sweep_inv_def pairwise_disjoint_def)

lemma find_all_table_range_inv:
  assumes "rectangular df"
  shows "\<exists>s. find_all_table_range df mr mc = Inr (list_table_range s) \<and>
           sweep_inv (notna df) (fst (shape df)) (snd (shape df)) mr mc (fst (shape df)) s"
proof -
  let ?R = "fst (shape df)" and ?C = "snd (shape df)"
  from assms have "has_shape df ?R ?C" by (rule rectangular_has_shape)
  then have sh: "has_shape (notna df) ?R ?C" by (rule has_shape_notna)
  have shp: "shape (notna df) = (?R, ?C)"
    by (cases df) (simp_all add: shape_def notna_def)
  from sweep_inv_final [OF sweep_inv_initial [OF sh]] obtain s where
    s: "sweep mr mc ?R ?C \<lparr>value_exists_at = notna df, list_table_range = []\<rparr> = Inr s"
      "sweep_inv (notna df) ?R ?C mr mc ?R s"
    by blast
  from s(1) shp have "find_all_table_range df mr mc = Inr (list_table_range s)"
    by (simp add: find_all_table_range_def case_prod_beta)
  with s(2) show ?thesis by blast
qed

section \<open>The sweep changes its state by accepted ranges only\<close>

lemma visit_cases:
  assumes "visit mr mc row col s = Inr s'"
  shows "s' = s \<or>
    (\<exists>t. find_table_range_from_boolean_array_starting_at (row, col) (BoolArray (value_exists_at s)) = Inr t \<and>
         has_min_size t mr mc \<and>
         s' = \<lparr>value_exists_at = fill_inplace t (value_exists_at s) False,
               list_table_range = list_table_range s @ [t]\<rparr>)"
  using assms by (auto simp: visit_def split: sum.splits if_splits)

lemma sweep_frame_refl: "sweep_frame mr mc s s"
  unfolding sweep_frame_def by (rule exI [of _ "[]"]) (simp add: erase_all_def)

lemma sweep_frame_trans:
  assumes "sweep_frame mr mc s1 s2" "sweep_frame mr mc s2 s3"
  shows "sweep_frame mr mc s1 s3"
proof -
  from assms(1) obtain ts where
    a: "list_table_range s2 = list_table_range s1 @ ts"
      "value_exists_at s2 = erase_all (value_exists_at s1) ts" "\<forall>t \<in> set ts. has_min_size t mr mc"
    unfolding sweep_frame_def by blast
  from assms(2) obtain us where
    b: "list_table_range s3 = list_table_range s2 @ us"
      "value_exists_at s3 = erase_all (value_exists_at s2) us" "\<forall>t \<in> set us. has_min_size t mr mc"
    unfolding sweep_frame_def by blast
  from a b have "list_table_range s3 = list_table_range s1 @ (ts @ us)"
    "value_exists_at s3 = erase_all (value_exists_at s1) (ts @ us)"
    "\<forall>t \<in> set (ts @ us). has_min_size t mr mc"
    by (auto simp: erase_all_def)
  then show ?thesis unfolding sweep_frame_def by blast
qed

lemma visit_frame:
  assumes "visit mr mc row col s = Inr s'"
  shows "sweep_frame mr mc s s'"
proof -
  from visit_cases [OF assms] show ?thesis
  proof
    assume "s' = s"
    then show ?thesis by (simp add: sweep_frame_refl)
  next
    assume "\<exists>t. find_table_range_from_boolean_array_starting_at (row, col) (BoolArray (value_exists_at s)) = Inr t \<and>
         has_min_size t mr mc \<and>
         s' = \<lparr>value_exists_at = fill_inplace t (value_exists_at s) False,
               list_table_range = list_table_range s @ [t]\<rparr>"
    then obtain t where t: "has_min_size t mr mc"
      "s' = \<lparr>value_exists_at = fill_inplace t (value_exists_at s) False,
               list_table_range = list_table_range s @ [t]\<rparr>"
      by blast
    show ?thesis unfolding sweep_frame_def
      by (rule exI [of _ "[t]"]) (simp add: t erase_all_def)
  qed
qed

lemma for_each_relation:
  assumes step: "\<And>x s s'. body x s = Inr s' \<Longrightarrow> Rel s s'"
    and refl: "\<And>s. Rel s s"
    and trans: "\<And>a b c. Rel a b \<Longrightarrow> Rel b c \<Longrightarrow> Rel a c"
  shows "for_each body xs s = Inr s' \<Longrightarrow> Rel s s'"
proof (induction xs arbitrary: s)
  case Nil
  then show ?case by (simp add: refl)
next
  case (Cons x xs)
  then obtain s1 where s1: "body x s = Inr s1" "for_each body xs s1 = Inr s'"
    by (auto split: sum.splits)
  from step [OF s1(1)] Cons.IH [OF s1(2)] show ?case by (rule trans)
qed

lemma sweep_row_frame:
  assumes "sweep_row mr mc C row s = Inr s'"
  shows "sweep_frame mr mc s s'"
  using assms unfolding sweep_row_def
  by (rule for_each_relation [where Rel = "sweep_frame mr mc", rotated -1])
    (erule visit_frame, rule sweep_frame_refl, erule sweep_frame_trans, assumption)

lemma sweep_sweep_frame:
  assumes "sweep mr mc R C s = Inr s'"
  shows "sweep_frame mr mc s s'"
  using assms unfolding sweep_def
  by (rule for_each_relation [where Rel = "sweep_frame mr mc", rotated -1])
    (erule sweep_row_frame, rule sweep_frame_refl, erule sweep_frame_trans, assumption)

lemma find_all_table_range_frame:
  assumes "find_all_table_range df mr mc = Inr ts"
  shows "\<forall>t \<in> set ts. has_min_size t mr mc"
proof -
  from assms obtain s where
    s: "sweep mr mc (fst (shape (notna df))) (snd (shape (notna df)))
          \<lparr>value_exists_at = notna df, list_table_range = []\<rparr> = Inr s" "ts = list_table_range s"
    by (auto simp: find_all_table_range_def case_prod_beta Let_def split: sum.splits)
  from sweep_sweep_frame [OF s(1)] s(2) show ?thesis
    by (auto simp: sweep_frame_def)
qed

section \<open>The claims\<close>

text \<open>
  C2. On the DataFrame of the module's example, \<^verbatim>\<open>find_all_table_range\<close> with minimum
  size 1 by 1 returns the ranges (0,0)-(2,2) and (1,3)-(3,5), in this order, and with
  minimum size 1 by 3 it returns the empty list.
\<close>

theorem find_all_table_range_example:
  "find_all_table_range example_frame 1 1 =
     Inr [\<lparr>start_row = 0, start_col = 0, stop_row = 2, stop_col = 2\<rparr>,
          \<lparr>start_row = 1, start_col = 3, stop_row = 3, stop_col = 5\<rparr>] \<and>
   find_all_table_range example_frame 1 3 = Inr []"
  by code_simp

text \<open>
  C7, as stated, fails: \<^verbatim>\<open>to_dataframe\<close> of the range (1,3)-(9,9), which exceeds the 3 by 5
  example DataFrame in both dimensions, returns the 2 by 2 block of the cells that exist; no
  error is signalled.
\<close>

theorem to_dataframe_out_of_bounds_counterexample:
  "int (fst (shape example_frame)) < stop_row \<lparr>start_row = 1, start_col = 3, stop_row = 9, stop_col = 9\<rparr> \<and>
   int (snd (shape example_frame)) < stop_col \<lparr>start_row = 1, start_col = 3, stop_row = 9, stop_col = 9\<rparr> \<and>
   to_dataframe \<lparr>start_row = 1, start_col = 3, stop_row = 9, stop_col = 9\<rparr> example_frame =
     Inr [[Some (Text ''c''), Some (Text ''d'')], [None, Some (Integer (- 4))]]"
  by code_simp

text \<open>
  C7, amended. For every DataFrame and every range whose four bounds are not negative,
  \<^verbatim>\<open>to_dataframe\<close> signals no error, also when the rectangle exceeds the DataFrame: it
  returns the rectangle clamped to the DataFrame, that is the rows from \<open>start_row\<close> up to
  the smaller of \<open>stop_row\<close> and the row count, and in each of them the cells from
  \<open>start_col\<close> up to the smaller of \<open>stop_col\<close> and the row's length.
\<close>

theorem to_dataframe_clamps:
  assumes "0 \<le> start_row t" "0 \<le> stop_row t" "0 \<le> start_col t" "0 \<le> stop_col t"
  shows "\<exists>m. to_dataframe t df = Inr m \<and>
           length m = min (nat (stop_row t)) (length df) - min (nat (start_row t)) (length df) \<and>
           (\<forall>i < length m.
              length (m ! i) =
                min (nat (stop_col t)) (length (df ! (nat (start_row t) + i))) -
                min (nat (start_col t)) (length (df ! (nat (start_row t) + i))) \<and>
              (\<forall>j < length (m ! i). m ! i ! j = df ! (nat (start_row t) + i) ! (nat (start_col t) + j)))"
proof -
  define rows where "rows = py_slice (start_row t) (stop_row t) df"
  define m where "m = map (py_slice (start_col t) (stop_col t)) rows"
  have res: "to_dataframe t df = Inr m"
    by (simp add: to_dataframe_def m_def rows_def)
  have lm: "length m = length rows"
    by (simp add: m_def)
  have len: "length m = min (nat (stop_row t)) (length df) - min (nat (start_row t)) (length df)"
    unfolding lm rows_def using assms(1,2) by (rule length_py_slice_nonneg)
  have row: "m ! i = py_slice (start_col t) (stop_col t) (df ! (nat (start_row t) + i))"
    if "i < length m" for i
  proof -
    from that lm have i: "i < length (py_slice (start_col t) (stop_col t) rows) \<or> i < length rows"
      by simp
    from that lm have "i < length (py_slice (start_row t) (stop_row t) df)"
      by (simp add: rows_def)
    with assms(1,2) have "rows ! i = df ! (nat (start_row t) + i)"
      unfolding rows_def by (rule nth_py_slice_nonneg)
    moreover from that lm have "m ! i = py_slice (start_col t) (stop_col t) (rows ! i)"
      by (simp add: m_def)
    ultimately show ?thesis by simp
  qed
  have cells: "length (m ! i) =
                min (nat (stop_col t)) (length (df ! (nat (start_row t) + i))) -
                min (nat (start_col t)) (length (df ! (nat (start_row t) + i))) \<and>
              (\<forall>j < length (m ! i). m ! i ! j = df ! (nat (start_row t) + i) ! (nat (start_col t) + j))"
    if "i < length m" for i
    unfolding row [OF that]
    using assms(3,4) length_py_slice_nonneg nth_py_slice_nonneg by blast
  from res len cells show ?thesis by blast
qed

theorem to_dataframe_clamps_witness:
  "(0::int) \<le> start_row \<lparr>start_row = 1, start_col = 3, stop_row = 9, stop_col = 9\<rparr> \<and>
   0 \<le> stop_row \<lparr>start_row = 1, start_col = 3, stop_row = 9, stop_col = 9\<rparr> \<and>
   0 \<le> start_col \<lparr>start_row = 1, start_col = 3, stop_row = 9, stop_col = 9\<rparr> \<and>
   0 \<le> stop_col \<lparr>start_row = 1, start_col = 3, stop_row = 9, stop_col = 9\<rparr> \<and>
   (\<exists>m. to_dataframe \<lparr>start_row = 1, start_col = 3, stop_row = 9, stop_col = 9\<rparr> example_frame = Inr m \<and>
        length m = 2)"
  using to_dataframe_clamps [of "\<lparr>start_row = 1, start_col = 3, stop_row = 9, stop_col = 9\<rparr>" example_frame]
  by (auto simp: example_frame_def)

text \<open>
  C10, as stated, fails: the range built from the positions (1,0) and (0,0) has a row
  extent of -1, below a minimum of 0, so \<^verbatim>\<open>has_min_size\<close> is false for it although both
  minima are 0.
\<close>

theorem has_min_size_unordered_counterexample:
  "(0::int) \<le> 0 \<and> \<not> has_min_size \<lparr>start_row = 1, start_col = 0, stop_row = 0, stop_col = 0\<rparr> 0 0"
  by (simp add: has_min_size_def)

text \<open>
  C10, amended. For every range with \<open>start_row \<le> stop_row\<close> and \<open>start_col \<le> stop_col\<close>,
  \<^verbatim>\<open>has_min_size\<close> is true whenever both minima are at most 0, also for a degenerate
  range; and the ranges that are degenerate (stop equal to start in a dimension) all fail
  the minimum-size test exactly when both minima are at least 1.
\<close>

theorem has_min_size_nonpositive_minima:
  "(ordered t \<and> min_n_rows \<le> 0 \<and> min_n_cols \<le> 0 \<longrightarrow> has_min_size t min_n_rows min_n_cols) \<and>
   ((\<forall>u. ordered u \<and> degenerate u \<longrightarrow> \<not> has_min_size u min_n_rows min_n_cols) =
      (1 \<le> min_n_rows \<and> 1 \<le> min_n_cols))"
proof -
  have a: "ordered t \<and> min_n_rows \<le> 0 \<and> min_n_cols \<le> 0 \<longrightarrow> has_min_size t min_n_rows min_n_cols"
    by (simp add: ordered_def has_min_size_def)
  have b: "1 \<le> min_n_rows \<and> 1 \<le> min_n_cols"
    if all: "\<forall>u. ordered u \<and> degenerate u \<longrightarrow> \<not> has_min_size u min_n_rows min_n_cols"
  proof -
    let ?wide = "\<lparr>start_row = 0, start_col = 0, stop_row = 0, stop_col = max 0 min_n_cols\<rparr>"
    let ?tall = "\<lparr>start_row = 0, start_col = 0, stop_row = max 0 min_n_rows, stop_col = 0\<rparr>"
    have "ordered ?wide \<and> degenerate ?wide" "ordered ?tall \<and> degenerate ?tall"
      by (simp_all add: ordered_def degenerate_def)
    with all have "\<not> has_min_size ?wide min_n_rows min_n_cols"
      "\<not> has_min_size ?tall min_n_rows min_n_cols"
      by blast+
    then show ?thesis
      by (simp add: has_min_size_def split: if_splits)
  qed
  have c: "\<forall>u. ordered u \<and> degenerate u \<longrightarrow> \<not> has_min_size u min_n_rows min_n_cols"
    if "1 \<le> min_n_rows \<and> 1 \<le> min_n_cols"
    using that by (auto simp: degenerate_def has_min_size_def)
  from a b c show ?thesis by blast
qed

theorem has_min_size_nonpositive_minima_witness:
  "ordered \<lparr>start_row = 2, start_col = 3, stop_row = 2, stop_col = 3\<rparr> \<and>
   degenerate \<lparr>start_row = 2, start_col = 3, stop_row = 2, stop_col = 3\<rparr> \<and>
   has_min_size \<lparr>start_row = 2, start_col = 3, stop_row = 2, stop_col = 3\<rparr> 0 0 \<and>
   \<not> has_min_size \<lparr>start_row = 2, start_col = 3, stop_row = 2, stop_col = 3\<rparr> 1 1"
  using has_min_size_nonpositive_minima [of "\<lparr>start_row = 2, start_col = 3, stop_row = 2, stop_col = 3\<rparr>" 0 0]
    has_min_size_nonpositive_minima [of "\<lparr>start_row = 2, start_col = 3, stop_row = 2, stop_col = 3\<rparr>" 1 1]
  by (simp add: ordered_def degenerate_def)

text \<open>
  C1. For a rectangular boolean array of \<open>R\<close> rows and \<open>C\<close> columns and an anchor
  \<open>(row0, col0)\<close> inside it, the growth routine returns the range from \<open>(row0, col0)\<close> to
  \<open>(row1, col1)\<close>, where \<open>col1\<close> is the first column from \<open>col0\<close> on at which the anchor row
  is false (every column before it is true), or \<open>C\<close> when there is none, and \<open>row1\<close> is the
  first row from \<open>row0\<close> on whose cells in the columns \<open>col0..<col1\<close> are all false (every
  row before it has a true cell there), or \<open>R\<close> when there is none. On the boolean array of
  the tests and the anchor (0,1) the range is (0,1)-(3,3).
\<close>

theorem growth_routine_result:
  "(rectangular a \<and> shape a = (R, C) \<and> row0 < R \<and> col0 < C \<longrightarrow>
      (\<exists>row1 col1.
         find_table_range_from_boolean_array_starting_at (row0, col0) (BoolArray a) =
           Inr \<lparr>start_row = int row0, start_col = int col0, stop_row = int row1, stop_col = int col1\<rparr> \<and>
         col0 \<le> col1 \<and> col1 \<le> C \<and>
         (\<forall>c. col0 \<le> c \<and> c < col1 \<longrightarrow> a ! row0 ! c) \<and> (col1 < C \<longrightarrow> \<not> a ! row0 ! col1) \<and>
         row0 \<le> row1 \<and> row1 \<le> R \<and>
         (\<forall>r. row0 \<le> r \<and> r < row1 \<longrightarrow> (\<exists>c. col0 \<le> c \<and> c < col1 \<and> a ! r ! c)) \<and>
         (row1 < R \<longrightarrow> (\<forall>c. col0 \<le> c \<and> c < col1 \<longrightarrow> \<not> a ! row1 ! c)))) \<and>
   find_table_range_from_boolean_array_starting_at (0, 1) (BoolArray example_boolean_array) =
     Inr \<lparr>start_row = 0, start_col = 1, stop_row = 3, stop_col = 3\<rparr>"
proof -
  have general: "\<exists>row1 col1.
         find_table_range_from_boolean_array_starting_at (row0, col0) (BoolArray a) =
           Inr \<lparr>start_row = int row0, start_col = int col0, stop_row = int row1, stop_col = int col1\<rparr> \<and>
         col0 \<le> col1 \<and> col1 \<le> C \<and>
         (\<forall>c. col0 \<le> c \<and> c < col1 \<longrightarrow> a ! row0 ! c) \<and> (col1 < C \<longrightarrow> \<not> a ! row0 ! col1) \<and>
         row0 \<le> row1 \<and> row1 \<le> R \<and>
         (\<forall>r. row0 \<le> r \<and> r < row1 \<longrightarrow> (\<exists>c. col0 \<le> c \<and> c < col1 \<and> a ! r ! c)) \<and>
         (row1 < R \<longrightarrow> (\<forall>c. col0 \<le> c \<and> c < col1 \<longrightarrow> \<not> a ! row1 ! c))"
    if h: "rectangular a \<and> shape a = (R, C) \<and> row0 < R \<and> col0 < C"
  proof -
    from h rectangular_has_shape [of a] have "has_shape a R C" by simp
    moreover from h have "row0 < R" "col0 \<le> C" by simp_all
    ultimately show ?thesis by (rule growth_has_shape)
  qed
  have example: "find_table_range_from_boolean_array_starting_at (0, 1) (BoolArray example_boolean_array) =
     Inr \<lparr>start_row = 0, start_col = 1, stop_row = 3, stop_col = 3\<rparr>"
    by code_simp
  from general example show ?thesis by blast
qed

theorem growth_routine_result_witness:
  "rectangular example_boolean_array \<and> shape example_boolean_array = (5, 4) \<and> (3::nat) < 5 \<and> (3::nat) < 4 \<and>
   (\<exists>row1 col1.
      find_table_range_from_boolean_array_starting_at (3, 3) (BoolArray example_boolean_array) =
        Inr \<lparr>start_row = 3, start_col = 3, stop_row = int row1, stop_col = int col1\<rparr> \<and>
      3 \<le> col1 \<and> col1 \<le> 4 \<and> 3 \<le> row1 \<and> row1 \<le> 5)"
proof -
  have h: "rectangular example_boolean_array \<and> shape example_boolean_array = (5, 4) \<and> (3::nat) < 5 \<and> (3::nat) < 4"
    by code_simp
  from growth_routine_result [of example_boolean_array 5 4 3 3] h
  show ?thesis by auto
qed

text \<open>
  C3. The ranges that \<^verbatim>\<open>find_all_table_range\<close> returns for a DataFrame are pairwise
  disjoint: no cell position lies in the rectangles of two ranges at different places of
  the returned list.
\<close>

theorem find_all_table_range_disjoint:
  assumes "rectangular df" "find_all_table_range df min_n_rows min_n_cols = Inr ts"
  shows "\<forall>i j. i < length ts \<and> j < length ts \<and> i \<noteq> j \<longrightarrow>
           (\<forall>r c. \<not> (inside (ts ! i) r c \<and> inside (ts ! j) r c))"
proof -
  from find_all_table_range_inv [OF assms(1), of min_n_rows min_n_cols] assms(2)
  have pd: "pairwise_disjoint ts" by (auto simp: sweep_inv_def)
  show ?thesis
  proof (intro allI impI)
    fix i j r c assume ij: "i < length ts \<and> j < length ts \<and> i \<noteq> j"
    then consider "i < j \<and> j < length ts" | "j < i \<and> i < length ts" by linarith
    then show "\<not> (inside (ts ! i) r c \<and> inside (ts ! j) r c)"
      using pd by cases (auto simp: pairwise_disjoint_def)
  qed
qed

theorem find_all_table_range_disjoint_witness:
  "rectangular example_frame \<and>
   find_all_table_range example_frame 1 1 =
     Inr [\<lparr>start_row = 0, start_col = 0, stop_row = 2, stop_col = 2\<rparr>,
          \<lparr>start_row = 1, start_col = 3, stop_row = 3, stop_col = 5\<rparr>] \<and>
   (\<forall>r c. \<not> (inside \<lparr>start_row = 0, start_col = 0, stop_row = 2, stop_col = 2\<rparr> r c \<and>
             inside \<lparr>start_row = 1, start_col = 3, stop_row = 3, stop_col = 5\<rparr> r c))"
proof -
  have a: "rectangular example_frame" by code_simp
  have b: "find_all_table_range example_frame 1 1 =
     Inr [\<lparr>start_row = 0, start_col = 0, stop_row = 2, stop_col = 2\<rparr>,
          \<lparr>start_row = 1, start_col = 3, stop_row = 3, stop_col = 5\<rparr>]" by code_simp
  have "\<not> (inside \<lparr>start_row = 0, start_col = 0, stop_row = 2, stop_col = 2\<rparr> r c \<and>
          inside \<lparr>start_row = 1, start_col = 3, stop_row = 3, stop_col = 5\<rparr> r c)" for r c
    using find_all_table_range_disjoint [OF a b, rule_format, of 0 1 r c] by simp
  with a b show ?thesis by simp
qed

text \<open>
  C4. The anchor row of every returned range is fully present: for every column \<open>c\<close> of the
  range, the cell \<open>(start_row, c)\<close> of the DataFrame exists and is not missing.
\<close>

theorem find_all_table_range_header_present:
  assumes "rectangular df" "find_all_table_range df min_n_rows min_n_cols = Inr ts"
    and "t \<in> set ts" "start_col t \<le> c" "c < stop_col t"
  shows "0 \<le> start_row t \<and> 0 \<le> start_col t \<and>
         (\<exists>v. item df (nat (start_row t)) (nat c) = Inr (Some v))"
proof -
  let ?R = "fst (shape df)" and ?C = "snd (shape df)"
  from find_all_table_range_inv [OF assms(1), of min_n_rows min_n_cols] assms(2,3) obtain m where
    ok: "range_ok (notna df) m ?R ?C min_n_rows min_n_cols ?R t"
    by (auto simp: sweep_inv_def)
  from assms(1) have sh: "has_shape df ?R ?C" by (rule rectangular_has_shape)
  from ok have b: "0 \<le> start_row t" "start_row t < int ?R" "0 \<le> start_col t" "stop_col t \<le> int ?C"
    by (simp_all add: range_ok_def)
  with assms(4,5) have rc: "nat (start_row t) < ?R" "nat c < ?C" by linarith+
  from b assms(4,5) have "nat (start_col t) \<le> nat c \<and> nat c < nat (stop_col t)" by linarith
  with ok have "notna df ! nat (start_row t) ! nat c" by (simp add: range_ok_def)
  moreover from sh rc have len: "nat (start_row t) < length df" "nat c < length (df ! nat (start_row t))"
    by (simp_all add: has_shape_def)
  ultimately have "df ! nat (start_row t) ! nat c \<noteq> None" by (simp add: notna_def)
  with len have "\<exists>v. item df (nat (start_row t)) (nat c) = Inr (Some v)"
    by (auto simp: item_def)
  with b show ?thesis by simp
qed

theorem find_all_table_range_header_present_witness:
  "rectangular example_frame \<and>
   find_all_table_range example_frame 1 1 =
     Inr [\<lparr>start_row = 0, start_col = 0, stop_row = 2, stop_col = 2\<rparr>,
          \<lparr>start_row = 1, start_col = 3, stop_row = 3, stop_col = 5\<rparr>] \<and>
   item example_frame 1 4 = Inr (Some (Text ''d''))"
proof -
  have a: "rectangular example_frame" by code_simp
  have b: "find_all_table_range example_frame 1 1 =
     Inr [\<lparr>start_row = 0, start_col = 0, stop_row = 2, stop_col = 2\<rparr>,
          \<lparr>start_row = 1, start_col = 3, stop_row = 3, stop_col = 5\<rparr>]" by code_simp
  from find_all_table_range_header_present
    [OF a b, of "\<lparr>start_row = 1, start_col = 3, stop_row = 3, stop_col = 5\<rparr>" 4]
  have "\<exists>v. item example_frame 1 4 = Inr (Some v)" by simp
  moreover have "item example_frame 1 4 = Inr (Some (Text ''d''))" by code_simp
  ultimately show ?thesis using a b by simp
qed

text \<open>
  C5. \<^verbatim>\<open>has_min_size\<close> holds exactly when the row extent is at least the minimum number
  of rows and the column extent at least the minimum number of columns, and every range
  that \<^verbatim>\<open>find_all_table_range\<close> returns has the minimum size, so both extents reach their
  minimum: a range that reaches only one of them is never returned.
\<close>

theorem find_all_table_range_min_size:
  "has_min_size t min_n_rows min_n_cols =
     (min_n_rows \<le> stop_row t - start_row t \<and> min_n_cols \<le> stop_col t - start_col t) \<and>
   (find_all_table_range df min_n_rows min_n_cols = Inr ts \<and> u \<in> set ts \<longrightarrow>
      has_min_size u min_n_rows min_n_cols \<and>
      min_n_rows \<le> stop_row u - start_row u \<and> min_n_cols \<le> stop_col u - start_col u)"
proof -
  have iff: "has_min_size t' min_n_rows min_n_cols =
     (min_n_rows \<le> stop_row t' - start_row t' \<and> min_n_cols \<le> stop_col t' - start_col t')" for t'
    by (auto simp: has_min_size_def)
  have "has_min_size u min_n_rows min_n_cols"
    if "find_all_table_range df min_n_rows min_n_cols = Inr ts \<and> u \<in> set ts"
    using that find_all_table_range_frame [of df min_n_rows min_n_cols ts] by blast
  with iff show ?thesis by blast
qed

theorem find_all_table_range_min_size_witness:
  "find_all_table_range example_frame 1 2 =
     Inr [\<lparr>start_row = 0, start_col = 0, stop_row = 2, stop_col = 2\<rparr>,
          \<lparr>start_row = 1, start_col = 3, stop_row = 3, stop_col = 5\<rparr>] \<and>
   has_min_size \<lparr>start_row = 1, start_col = 3, stop_row = 3, stop_col = 5\<rparr> 1 2 \<and>
   \<not> has_min_size \<lparr>start_row = 1, start_col = 3, stop_row = 3, stop_col = 5\<rparr> 1 3"
proof -
  have b: "find_all_table_range example_frame 1 2 =
     Inr [\<lparr>start_row = 0, start_col = 0, stop_row = 2, stop_col = 2\<rparr>,
          \<lparr>start_row = 1, start_col = 3, stop_row = 3, stop_col = 5\<rparr>]" by code_simp
  from find_all_table_range_min_size
    [of "\<lparr>start_row = 1, start_col = 3, stop_row = 3, stop_col = 5\<rparr>" 1 2 example_frame
        "[\<lparr>start_row = 0, start_col = 0, stop_row = 2, stop_col = 2\<rparr>,
          \<lparr>start_row = 1, start_col = 3, stop_row = 3, stop_col = 5\<rparr>]"
        "\<lparr>start_row = 1, start_col = 3, stop_row = 3, stop_col = 5\<rparr>"] b
  have "has_min_size \<lparr>start_row = 1, start_col = 3, stop_row = 3, stop_col = 5\<rparr> 1 2" by simp
  moreover from find_all_table_range_min_size
    [THEN conjunct1, of "\<lparr>start_row = 1, start_col = 3, stop_row = 3, stop_col = 5\<rparr>" 1 3]
  have "\<not> has_min_size \<lparr>start_row = 1, start_col = 3, stop_row = 3, stop_col = 5\<rparr> 1 3" by simp
  ultimately show ?thesis using b by simp
qed

text \<open>
  C6. In the sweep, a candidate that the growth routine returns for a present anchor and
  that fails the minimum-size test changes nothing: the step at the anchor returns the state
  it was given, the working array and the result list untouched. A step that changes the
  state is the acceptance of a range of minimum size, appended to the list and erased from
  the array; and after the whole sweep the working array is the one before it with the
  appended ranges erased in order, and nothing else changed.
\<close>

theorem rejected_candidate_changes_nothing:
  "(item (value_exists_at s) row col = Inr True \<and>
    find_table_range_from_boolean_array_starting_at (row, col) (BoolArray (value_exists_at s)) = Inr t \<and>
    \<not> has_min_size t min_n_rows min_n_cols \<longrightarrow>
      visit min_n_rows min_n_cols row col s = Inr s) \<and>
   (visit min_n_rows min_n_cols row col s = Inr s' \<and> s' \<noteq> s \<longrightarrow>
      (\<exists>u. find_table_range_from_boolean_array_starting_at (row, col) (BoolArray (value_exists_at s)) = Inr u \<and>
           has_min_size u min_n_rows min_n_cols \<and>
           s' = \<lparr>value_exists_at = fill_inplace u (value_exists_at s) False,
                 list_table_range = list_table_range s @ [u]\<rparr>)) \<and>
   (sweep min_n_rows min_n_cols last_row last_col s = Inr s'' \<longrightarrow>
      (\<exists>ts. list_table_range s'' = list_table_range s @ ts \<and>
            value_exists_at s'' = erase_all (value_exists_at s) ts \<and>
            (\<forall>u \<in> set ts. has_min_size u min_n_rows min_n_cols)))"
proof -
  have a: "visit min_n_rows min_n_cols row col s = Inr s"
    if "item (value_exists_at s) row col = Inr True \<and>
        find_table_range_from_boolean_array_starting_at (row, col) (BoolArray (value_exists_at s)) = Inr t \<and>
        \<not> has_min_size t min_n_rows min_n_cols"
    using that by (simp add: visit_def)
  have b: "\<exists>u. find_table_range_from_boolean_array_starting_at (row, col) (BoolArray (value_exists_at s)) = Inr u \<and>
           has_min_size u min_n_rows min_n_cols \<and>
           s' = \<lparr>value_exists_at = fill_inplace u (value_exists_at s) False,
                 list_table_range = list_table_range s @ [u]\<rparr>"
    if "visit min_n_rows min_n_cols row col s = Inr s' \<and> s' \<noteq> s"
    using that visit_cases [of min_n_rows min_n_cols row col s s'] by blast
  have c: "\<exists>ts. list_table_range s'' = list_table_range s @ ts \<and>
            value_exists_at s'' = erase_all (value_exists_at s) ts \<and>
            (\<forall>u \<in> set ts. has_min_size u min_n_rows min_n_cols)"
    if "sweep min_n_rows min_n_cols last_row last_col s = Inr s''"
    using sweep_sweep_frame [OF that] by (simp add: sweep_frame_def)
  from a b c show ?thesis by blast
qed

theorem rejected_candidate_changes_nothing_witness:
  "item [[True, False], [True, True]] 0 0 = Inr True \<and>
   find_table_range_from_boolean_array_starting_at (0, 0) (BoolArray [[True, False], [True, True]]) =
     Inr \<lparr>start_row = 0, start_col = 0, stop_row = 2, stop_col = 1\<rparr> \<and>
   \<not> has_min_size \<lparr>start_row = 0, start_col = 0, stop_row = 2, stop_col = 1\<rparr> 1 2 \<and>
   visit 1 2 0 0 \<lparr>value_exists_at = [[True, False], [True, True]], list_table_range = []\<rparr> =
     Inr \<lparr>value_exists_at = [[True, False], [True, True]], list_table_range = []\<rparr> \<and>
   sweep 1 2 2 2 \<lparr>value_exists_at = [[True, False], [True, True]], list_table_range = []\<rparr> =
     Inr \<lparr>value_exists_at = [[True, False], [False, False]],
          list_table_range = [\<lparr>start_row = 1, start_col = 0, stop_row = 2, stop_col = 2\<rparr>]\<rparr>"
proof -
  have h: "item [[True, False], [True, True]] 0 0 = Inr True"
    "find_table_range_from_boolean_array_starting_at (0, 0) (BoolArray [[True, False], [True, True]]) =
      Inr \<lparr>start_row = 0, start_col = 0, stop_row = 2, stop_col = 1\<rparr>"
    "\<not> has_min_size \<lparr>start_row = 0, start_col = 0, stop_row = 2, stop_col = 1\<rparr> 1 2"
    by code_simp+
  have sw: "sweep 1 2 2 2 \<lparr>value_exists_at = [[True, False], [True, True]], list_table_range = []\<rparr> =
     Inr \<lparr>value_exists_at = [[True, False], [False, False]],
          list_table_range = [\<lparr>start_row = 1, start_col = 0, stop_row = 2, stop_col = 2\<rparr>]\<rparr>"
    by code_simp
  from rejected_candidate_changes_nothing
    [of "\<lparr>value_exists_at = [[True, False], [True, True]], list_table_range = []\<rparr>" 0 0
        "\<lparr>start_row = 0, start_col = 0, stop_row = 2, stop_col = 1\<rparr>" 1 2] h
  have "visit 1 2 0 0 \<lparr>value_exists_at = [[True, False], [True, True]], list_table_range = []\<rparr> =
     Inr \<lparr>value_exists_at = [[True, False], [True, True]], list_table_range = []\<rparr>"
    by simp
  with h sw show ?thesis by simp
qed

text \<open>
  C8, as stated, fails: the constructor accepts the positions (1,1) and (0,0) and the range
  built has its stop below its start in both dimensions.
\<close>

theorem TableRange_unordered_counterexample:
  "TableRange [1, 1] [0, 0] = Inr \<lparr>start_row = 1, start_col = 1, stop_row = 0, stop_col = 0\<rparr> \<and>
   \<not> ordered \<lparr>start_row = 1, start_col = 1, stop_row = 0, stop_col = 0\<rparr>"
  by (simp add: TableRange_def ordered_def)

text \<open>
  C8, amended. The constructor takes any two positions of length two and stores the four
  coordinates as given, with no check of their order: the range built satisfies
  \<open>start_row \<le> stop_row\<close> and \<open>start_col \<le> stop_col\<close> exactly when the given positions do
  (a range with stop equal to start in a dimension is permitted). Every range that
  \<^verbatim>\<open>find_all_table_range\<close> returns satisfies the two inequalities.
\<close>

theorem TableRange_stores_positions:
  "(length p = 2 \<and> length q = 2 \<longrightarrow>
      (\<exists>t. TableRange p q = Inr t \<and>
           start_row t = p ! 0 \<and> start_col t = p ! 1 \<and> stop_row t = q ! 0 \<and> stop_col t = q ! 1 \<and>
           ordered t = (p ! 0 \<le> q ! 0 \<and> p ! 1 \<le> q ! 1))) \<and>
   (rectangular df \<and> find_all_table_range df min_n_rows min_n_cols = Inr ts \<and> u \<in> set ts \<longrightarrow>
      ordered u)"
proof -
  have a: "\<exists>t. TableRange p q = Inr t \<and>
           start_row t = p ! 0 \<and> start_col t = p ! 1 \<and> stop_row t = q ! 0 \<and> stop_col t = q ! 1 \<and>
           ordered t = (p ! 0 \<le> q ! 0 \<and> p ! 1 \<le> q ! 1)"
    if "length p = 2 \<and> length q = 2"
    using that by (simp add: TableRange_def ordered_def)
  have b: "ordered u"
    if h: "rectangular df \<and> find_all_table_range df min_n_rows min_n_cols = Inr ts \<and> u \<in> set ts"
  proof -
    from h find_all_table_range_inv [of df min_n_rows min_n_cols] obtain m where
      "range_ok (notna df) m (fst (shape df)) (snd (shape df)) min_n_rows min_n_cols (fst (shape df)) u"
      by (auto simp: sweep_inv_def)
    then show ?thesis by (simp add: range_ok_def ordered_def)
  qed
  from a b show ?thesis by blast
qed

theorem TableRange_stores_positions_witness:
  "length [1, 3 :: int] = 2 \<and> length [3, 5 :: int] = 2 \<and>
   (\<exists>t. TableRange [1, 3] [3, 5] = Inr t \<and> start_row t = 1 \<and> start_col t = 3 \<and>
        stop_row t = 3 \<and> stop_col t = 5 \<and> ordered t) \<and>
   rectangular example_frame \<and>
   find_all_table_range example_frame 1 1 =
     Inr [\<lparr>start_row = 0, start_col = 0, stop_row = 2, stop_col = 2\<rparr>,
          \<lparr>start_row = 1, start_col = 3, stop_row = 3, stop_col = 5\<rparr>] \<and>
   ordered \<lparr>start_row = 1, start_col = 3, stop_row = 3, stop_col = 5\<rparr>"
proof -
  have a: "rectangular example_frame" by code_simp
  have b: "find_all_table_range example_frame 1 1 =
     Inr [\<lparr>start_row = 0, start_col = 0, stop_row = 2, stop_col = 2\<rparr>,
          \<lparr>start_row = 1, start_col = 3, stop_row = 3, stop_col = 5\<rparr>]" by code_simp
  from TableRange_stores_positions
    [of "[1, 3]" "[3, 5]" example_frame 1 1
        "[\<lparr>start_row = 0, start_col = 0, stop_row = 2, stop_col = 2\<rparr>,
          \<lparr>start_row = 1, start_col = 3, stop_row = 3, stop_col = 5\<rparr>]"
        "\<lparr>start_row = 1, start_col = 3, stop_row = 3, stop_col = 5\<rparr>"]
    a b
  show ?thesis by simp
qed



end
